theory Spec2Isabelle
  imports Main "HOL-Library.Sublist" "HOL-Library.Multiset"
    "HOL-Library.Char_ord" "HOL-Library.List_Lexorder" "HOL-Library.AList"
begin

section \<open>Tables\<close>

text \<open>
  A cell of a sheet read by \<open>pd.read_excel\<close>: an empty cell (NaN / None), a text or a
  whole number. A row maps column names to cells; a column without an entry in a row
  reads as the empty cell. A data frame has its column labels and its rows in order.
\<close>

datatype cell = Null | Str string | Num int

type_synonym row = "(string \<times> cell) list"

record dataframe =
  columns :: "string list"
  rows :: "row list"

datatype error = KeyError string | TypeError | BadZipFile

definition cell_at :: "row \<Rightarrow> string \<Rightarrow> cell" where
  "cell_at r c = (case map_of r c of None \<Rightarrow> Null | Some v \<Rightarrow> v)"

text \<open>\<open>df[col]\<close>: the column as a series; a label that is not a column raises KeyError.\<close>

definition getitem_col :: "dataframe \<Rightarrow> string \<Rightarrow> error + cell list" where
  "getitem_col df col =
     (if col \<in> set (columns df) then Inr (map (\<lambda>r. cell_at r col) (rows df))
      else Inl (KeyError col))"

text \<open>\<open>series.isin(values)\<close>: one truth value per entry.\<close>

definition isin :: "cell list \<Rightarrow> cell list \<Rightarrow> bool list" where
  "isin series vals = map (\<lambda>v. v \<in> set vals) series"

text \<open>\<open>~mask\<close>\<close>

definition invert :: "bool list \<Rightarrow> bool list" where
  "invert bs = map Not bs"

text \<open>\<open>df[mask]\<close>: boolean indexing, a new frame with the rows whose mask entry is true.\<close>

definition getitem_mask :: "dataframe \<Rightarrow> bool list \<Rightarrow> dataframe" where
  "getitem_mask df bs = df\<lparr>rows := map fst (filter snd (zip (rows df) bs))\<rparr>"

section \<open>Applying the filters (the loop over \<open>filters.items()\<close>)\<close>

text \<open>
  \<open>filters\<close> is the dictionary from filter column to the values selected for it, walked
  in insertion order; \<open>is_exclude_mode\<close> is the single global mode.
\<close>

type_synonym filters = "(string \<times> cell list) list"

fun filtered_df :: "bool \<Rightarrow> filters \<Rightarrow> dataframe \<Rightarrow> error + dataframe" where
  "filtered_df is_exclude_mode [] df = Inr df"
| "filtered_df is_exclude_mode ((filter_col, selected_values) # fs) df =
     (if selected_values \<noteq> [] \<and> filter_col \<in> set (columns df) then
        (case getitem_col df filter_col of
           Inl e \<Rightarrow> Inl e
         | Inr series \<Rightarrow>
             if is_exclude_mode
             then filtered_df is_exclude_mode fs
                    (getitem_mask df (invert (isin series selected_values)))
             else filtered_df is_exclude_mode fs
                    (getitem_mask df (isin series selected_values)))
      else filtered_df is_exclude_mode fs df)"

text \<open>The predicate one filter column puts on a row, and the one a whole dictionary puts.\<close>

definition col_pred :: "bool \<Rightarrow> string \<Rightarrow> cell list \<Rightarrow> row \<Rightarrow> bool" where
  "col_pred is_exclude_mode filter_col selected_values r =
     (if is_exclude_mode then cell_at r filter_col \<notin> set selected_values
      else cell_at r filter_col \<in> set selected_values)"

definition active :: "dataframe \<Rightarrow> string \<times> cell list \<Rightarrow> bool" where
  "active df f = (snd f \<noteq> [] \<and> fst f \<in> set (columns df))"

definition survives :: "bool \<Rightarrow> filters \<Rightarrow> dataframe \<Rightarrow> row \<Rightarrow> bool" where
  "survives is_exclude_mode fs df r =
     list_all (\<lambda>f. col_pred is_exclude_mode (fst f) (snd f) r) (filter (active df) fs)"

section \<open>Candidate values of a filter column\<close>

text \<open>
  Line 129: \<open>df[filter_col].dropna().unique()\<close> drops the empty cells and keeps the first
  occurrence of every value. A Python set is a list without repetition, whose order means
  nothing; \<open>update\<close> adds the values that are not yet in it.
\<close>

definition dropna :: "cell list \<Rightarrow> cell list" where
  "dropna series = filter (\<lambda>v. v \<noteq> Null) series"

definition unique :: "cell list \<Rightarrow> cell list" where
  "unique series = rev (remdups (rev series))"

definition set_update :: "cell list \<Rightarrow> cell list \<Rightarrow> cell list" where
  "set_update s vs = fold List.insert vs s"

text \<open>
  Line 132: \<open>sorted(list(unique_values))\<close>. Python orders texts among themselves (by
  code point, a prefix first) and numbers among themselves; comparing a text with a
  number raises TypeError, which any sort of two or more values of both kinds runs into.
\<close>

fun is_str :: "cell \<Rightarrow> bool" where
  "is_str (Str s) = True"
| "is_str v = False"

fun is_num :: "cell \<Rightarrow> bool" where
  "is_num (Num n) = True"
| "is_num v = False"

fun the_str :: "cell \<Rightarrow> string" where
  "the_str (Str s) = s"
| "the_str v = []"

fun the_num :: "cell \<Rightarrow> int" where
  "the_num (Num n) = n"
| "the_num v = 0"

definition sorted_py :: "cell list \<Rightarrow> error + cell list" where
  "sorted_py s =
     (if length s \<le> 1 then Inr s
      else if list_all is_str s then Inr (map Str (sort (map the_str s)))
      else if list_all is_num s then Inr (map Num (sort (map the_num s)))
      else Inl TypeError)"

text \<open>
  The dictionary \<open>st.session_state.dataframes\<close>, from sheet name to data frame, in
  insertion order. Lines 125-129 are the loop over the selected sheets for one filter
  column; \<open>unique_values\<close> is the value of that variable after line 132.
\<close>

type_synonym store = "(string \<times> dataframe) list"

fun collect_unique :: "store \<Rightarrow> string \<Rightarrow> string list \<Rightarrow> cell list \<Rightarrow> error + cell list" where
  "collect_unique dataframes filter_col [] acc = Inr acc"
| "collect_unique dataframes filter_col (sheet # sheets) acc =
     (case map_of dataframes sheet of
        None \<Rightarrow> Inl (KeyError sheet)
      | Some df \<Rightarrow>
          if filter_col \<in> set (columns df) then
            (case getitem_col df filter_col of
               Inl e \<Rightarrow> Inl e
             | Inr series \<Rightarrow>
                 collect_unique dataframes filter_col sheets
                   (set_update acc (unique (dropna series))))
          else collect_unique dataframes filter_col sheets acc)"

definition unique_values :: "store \<Rightarrow> string list \<Rightarrow> string \<Rightarrow> error + cell list" where
  "unique_values dataframes selected_sheets filter_col =
     (case collect_unique dataframes filter_col selected_sheets [] of
        Inl e \<Rightarrow> Inl e
      | Inr s \<Rightarrow> if s \<noteq> [] then sorted_py s else Inr s)"

text \<open>
  The candidate values in the words of the specification: the union, over every selected
  table that contains the column, of the distinct non-null values of the column; and
  what ascending means for the values offered.
\<close>

definition distinct_non_null :: "dataframe \<Rightarrow> string \<Rightarrow> cell set" where
  "distinct_non_null df column = {v \<in> (\<lambda>r. cell_at r column) ` set (rows df). v \<noteq> Null}"

definition collectValues :: "store \<Rightarrow> string list \<Rightarrow> string \<Rightarrow> cell set" where
  "collectValues dataframes selectedSheets column =
     (\<Union>sheet \<in> set selectedSheets.
        case map_of dataframes sheet of
          None \<Rightarrow> {}
        | Some df \<Rightarrow> if column \<in> set (columns df) then distinct_non_null df column else {})"

fun cell_less :: "cell \<Rightarrow> cell \<Rightarrow> bool" where
  "cell_less (Str a) (Str b) = (a < b)"
| "cell_less (Num a) (Num b) = (a < b)"
| "cell_less u v = False"

text \<open>
  The list that sorting makes of a set of non-empty cells, used in the proofs below.
\<close>

definition canon :: "cell set \<Rightarrow> error + cell list" where
  "canon U =
     (if U \<subseteq> range Str then Inr (map Str (sorted_list_of_set (the_str ` U)))
      else if U \<subseteq> range Num then Inr (map Num (sorted_list_of_set (the_num ` U)))
      else Inl TypeError)"

section \<open>The session: upload, loading and display\<close>

text \<open>
  The two fixed lists of the script (lines 34-43 and 82-89).
\<close>

definition expected_sheets :: "string list" where
  "expected_sheets =
     [''Region'', ''Issuer'', ''Merchant'', ''Acquirer'', ''Issuer-Merchant'',
      ''Issuer-Acquirer'', ''Acquirer-Merchant'', ''Issuer-Acquirer-Merchant'']"

definition filter_columns :: "string list" where
  "filter_columns =
     [''Issuer region name'', ''Issuer country'', ''Product Category'', ''Issuer'',
      ''Merchant'', ''Acquirer'']"

text \<open>
  Lines 17-25: the engine is chosen from the text after the last dot of the file name,
  in lower case (letters \<open>A\<close> to \<open>Z\<close>); \<open>None\<close> is the unsupported format.
\<close>

datatype engine = Openpyxl | Xlrd

fun str_split :: "char \<Rightarrow> string \<Rightarrow> string list" where
  "str_split sep [] = [[]]"
| "str_split sep (c # cs) =
     (if c = sep then [] # str_split sep cs
      else (case str_split sep cs of
              w # ws \<Rightarrow> (c # w) # ws
            | [] \<Rightarrow> [[c]]))"

definition lower_char :: "char \<Rightarrow> char" where
  "lower_char c =
     (if CHR ''A'' \<le> c \<and> c \<le> CHR ''Z'' then char_of (of_char c + (32::nat)) else c)"

definition lower :: "string \<Rightarrow> string" where
  "lower s = map lower_char s"

definition file_extension :: "string \<Rightarrow> string" where
  "file_extension name = lower (last (str_split CHR ''.'' name))"

definition engine_of :: "string \<Rightarrow> engine option" where
  "engine_of name =
     (if file_extension name = ''xlsx'' then Some Openpyxl
      else if file_extension name = ''xls'' then Some Xlrd
      else None)"

text \<open>
  An uploaded file has a name and, when \<open>pd.ExcelFile\<close> can read it, a workbook: its
  sheets by name, in order. The session state has the key \<open>dataframes\<close> or not. The
  values the widgets return are parameters: the sheets chosen from the options, the
  mode of the radio button, the values chosen for a filter column from its options, and
  whether the reset button was clicked.
\<close>

record uploaded =
  upload_name :: string
  upload_book :: "store option"

record session_state =
  dataframes :: "store option"

record widgets =
  sheets_widget :: "string list \<Rightarrow> string list"
  exclude_mode :: bool
  filter_widget :: "string \<Rightarrow> cell list \<Rightarrow> cell list"
  reset_button :: bool

text \<open>
  What a run of the script does that can be observed: the calls of the spreadsheet
  library and the messages and tables put on the page (\<open>st.error\<close>, \<open>st.warning\<close>,
  \<open>st.success\<close>, \<open>st.info\<close>, and a sheet shown with its filtered frame and its number
  of records).
\<close>

datatype event =
    Open_workbook string
  | Read_sheet string string
  | Error_unsupported string
  | Warning_sheet_not_found string
  | Success_loaded nat
  | Error_no_valid_sheets
  | Info_select_sheet
  | Warning_no_filter_columns
  | Show_sheet string dataframe nat
  | Error_reading error
  | Info_upload

text \<open>
  Lines 49-53: the loop over the expected sheets; \<open>sheet in excel_file.sheet_names\<close> is
  the lookup in the workbook, \<open>dataframes[sheet] = ...\<close> the update of the dictionary.
\<close>

fun load_sheets :: "string \<Rightarrow> store \<Rightarrow> string list \<Rightarrow> store \<Rightarrow> store \<times> event list" where
  "load_sheets nm wb [] dfs = (dfs, [])"
| "load_sheets nm wb (sheet # sheets) dfs =
     (case map_of wb sheet of
        Some df \<Rightarrow>
          (case load_sheets nm wb sheets (AList.update sheet df dfs) of
             (d, evs) \<Rightarrow> (d, Read_sheet nm sheet # evs))
      | None \<Rightarrow>
          (case load_sheets nm wb sheets dfs of
             (d, evs) \<Rightarrow> (d, Warning_sheet_not_found sheet # evs)))"

text \<open>
  Lines 76-79 and 106-108: \<open>dataframes[sheet]\<close> for every selected sheet.
\<close>

fun lookup_sheets :: "store \<Rightarrow> string list \<Rightarrow> error + dataframe list" where
  "lookup_sheets d [] = Inr []"
| "lookup_sheets d (sheet # sheets) =
     (case map_of d sheet of
        None \<Rightarrow> Inl (KeyError sheet)
      | Some df \<Rightarrow>
          (case lookup_sheets d sheets of
             Inl e \<Rightarrow> Inl e
           | Inr dfs \<Rightarrow> Inr (df # dfs)))"

text \<open>
  Lines 123-140: for every filter column with collected values, the sorted values are the
  options of a multiselect, and its selection is stored in \<open>filters\<close>.
\<close>

fun build_filters :: "widgets \<Rightarrow> store \<Rightarrow> string list \<Rightarrow> string list \<Rightarrow> filters \<Rightarrow> error + filters" where
  "build_filters w d selected_sheets [] filters = Inr filters"
| "build_filters w d selected_sheets (filter_col # cols) filters =
     (case collect_unique d filter_col selected_sheets [] of
        Inl e \<Rightarrow> Inl e
      | Inr s \<Rightarrow>
          if s \<noteq> [] then
            (case sorted_py s of
               Inl e \<Rightarrow> Inl e
             | Inr opts \<Rightarrow>
                 build_filters w d selected_sheets cols
                   (AList.update filter_col (filter_widget w filter_col opts) filters))
          else build_filters w d selected_sheets cols filters)"

text \<open>
  Lines 145-184: every selected sheet is filtered and shown.
\<close>

fun display_sheets :: "bool \<Rightarrow> filters \<Rightarrow> store \<Rightarrow> string list \<Rightarrow> event list \<times> error option" where
  "display_sheets is_exclude_mode fs d [] = ([], None)"
| "display_sheets is_exclude_mode fs d (sheet_name # sheets) =
     (case map_of d sheet_name of
        None \<Rightarrow> ([], Some (KeyError sheet_name))
      | Some df \<Rightarrow>
          (case filtered_df is_exclude_mode fs df of
             Inl e \<Rightarrow> ([], Some e)
           | Inr fdf \<Rightarrow>
               (case display_sheets is_exclude_mode fs d sheets of
                  (evs, e) \<Rightarrow> (Show_sheet sheet_name fdf (length (rows df)) # evs, e))))"

text \<open>
  Lines 55-188: what is shown for the loaded sheets; an exception ends it with the
  events shown so far.
\<close>

definition display :: "widgets \<Rightarrow> store \<Rightarrow> event list \<times> error option" where
  "display w d =
     (if d \<noteq> [] then
        (let available_sheets = map fst d;
             selected_sheets = sheets_widget w available_sheets
         in if selected_sheets \<noteq> [] then
              (case lookup_sheets d selected_sheets of
                 Inl e \<Rightarrow> ([Success_loaded (length d)], Some e)
               | Inr dfs \<Rightarrow>
                   (let all_columns = concat (map columns dfs);
                        available_filter_columns =
                          filter (\<lambda>col. col \<in> set all_columns) filter_columns;
                        warn = (if available_filter_columns = []
                                then [Warning_no_filter_columns] else [])
                    in case build_filters w d selected_sheets filter_columns [] of
                         Inl e \<Rightarrow> (Success_loaded (length d) # warn, Some e)
                       | Inr filters \<Rightarrow>
                           (case display_sheets (exclude_mode w) filters d selected_sheets of
                              (evs, e) \<Rightarrow> (Success_loaded (length d) # warn @ evs, e))))
            else ([Success_loaded (length d), Info_select_sheet], None))
      else ([Error_no_valid_sheets], None))"

text \<open>
  Lines 12-223. The last component says that \<open>st.stop()\<close> ended the run. An exception is
  caught at line 190 and reported.
\<close>

definition script_main ::
    "widgets \<Rightarrow> session_state \<Rightarrow> uploaded option \<Rightarrow> session_state \<times> event list \<times> bool" where
  "script_main w s uploaded_file =
     (case uploaded_file of
        None \<Rightarrow> (s, [Info_upload], False)
      | Some f \<Rightarrow>
          (case engine_of (upload_name f) of
             None \<Rightarrow> (s, [Error_unsupported (file_extension (upload_name f))], True)
           | Some engine \<Rightarrow>
               (case upload_book f of
                  None \<Rightarrow> (s, [Open_workbook (upload_name f), Error_reading BadZipFile], False)
                | Some wb \<Rightarrow>
                    (case (case dataframes s of
                             None \<Rightarrow> load_sheets (upload_name f) wb expected_sheets []
                           | Some d \<Rightarrow> (d, [])) of
                       (d, loading) \<Rightarrow>
                         (case display w d of
                            (evs, None) \<Rightarrow>
                              (s\<lparr>dataframes := Some d\<rparr>,
                               Open_workbook (upload_name f) # loading @ evs, False)
                          | (evs, Some e) \<Rightarrow>
                              (s\<lparr>dataframes := Some d\<rparr>,
                               Open_workbook (upload_name f) # loading @ evs @ [Error_reading e],
                               False))))))"

text \<open>
  Lines 254-259: the reset button deletes the key and asks for a rerun, in which the
  button is no longer clicked.
\<close>

definition script ::
    "widgets \<Rightarrow> session_state \<Rightarrow> uploaded option \<Rightarrow> session_state \<times> event list \<times> bool" where
  "script w s uploaded_file =
     (case script_main w s uploaded_file of
        (s1, evs, stopped) \<Rightarrow>
          if \<not> stopped \<and> reset_button w then (s1\<lparr>dataframes := None\<rparr>, evs, True)
          else (s1, evs, False))"

definition interaction ::
    "widgets \<Rightarrow> session_state \<Rightarrow> uploaded option \<Rightarrow> session_state \<times> event list" where
  "interaction w s uploaded_file =
     (case script w s uploaded_file of
        (s1, evs, rerun) \<Rightarrow>
          if rerun then
            (case script (w\<lparr>reset_button := False\<rparr>) s1 uploaded_file of
               (s2, evs2, r) \<Rightarrow> (s2, evs @ evs2))
          else (s1, evs))"

text \<open>
  The sheets named by the warnings of a trace, the sheets read in a trace, and the
  expected sheets a workbook has, with their tables.
\<close>

fun warned_sheets :: "event list \<Rightarrow> string list" where
  "warned_sheets [] = []"
| "warned_sheets (Warning_sheet_not_found sheet # evs) = sheet # warned_sheets evs"
| "warned_sheets (ev # evs) = warned_sheets evs"

fun read_sheets :: "event list \<Rightarrow> string list" where
  "read_sheets [] = []"
| "read_sheets (Read_sheet nm sheet # evs) = sheet # read_sheets evs"
| "read_sheets (ev # evs) = read_sheets evs"

definition found :: "store \<Rightarrow> string list \<Rightarrow> store" where
  "found wb sheets = List.map_filter (\<lambda>sh. map_option (Pair sh) (map_of wb sh)) sheets"

section \<open>Data frames as objects\<close>

text \<open>
  Lines 146-157 with the data frames as objects in a heap, addressed by position:
  \<open>copy()\<close> and boolean indexing allocate a new object, a variable holds an address.
\<close>

type_synonym heap = "dataframe list"

definition copy_df :: "heap \<Rightarrow> nat \<Rightarrow> heap \<times> nat" where
  "copy_df h a = (h @ [h ! a], length h)"

definition new_df :: "heap \<Rightarrow> dataframe \<Rightarrow> heap \<times> nat" where
  "new_df h df = (h @ [df], length h)"

fun filter_loop :: "bool \<Rightarrow> filters \<Rightarrow> heap \<Rightarrow> nat \<Rightarrow> error + heap \<times> nat" where
  "filter_loop is_exclude_mode [] h filtered = Inr (h, filtered)"
| "filter_loop is_exclude_mode ((filter_col, selected_values) # fs) h filtered =
     (if selected_values \<noteq> [] \<and> filter_col \<in> set (columns (h ! filtered)) then
        (case getitem_col (h ! filtered) filter_col of
           Inl e \<Rightarrow> Inl e
         | Inr series \<Rightarrow>
             if is_exclude_mode
             then (case new_df h (getitem_mask (h ! filtered)
                                    (invert (isin series selected_values))) of
                     (h', a) \<Rightarrow> filter_loop is_exclude_mode fs h' a)
             else (case new_df h (getitem_mask (h ! filtered) (isin series selected_values)) of
                     (h', a) \<Rightarrow> filter_loop is_exclude_mode fs h' a))
      else filter_loop is_exclude_mode fs h filtered)"

definition filtered_view :: "bool \<Rightarrow> filters \<Rightarrow> heap \<Rightarrow> nat \<Rightarrow> error + heap \<times> nat" where
  "filtered_view is_exclude_mode fs h source =
     (case copy_df h source of
        (h1, df) \<Rightarrow>
          (case copy_df h1 df of
             (h2, filtered) \<Rightarrow> filter_loop is_exclude_mode fs h2 filtered))"

section \<open>Example data\<close>

text \<open>
  The rows of a result, and the tables, stores, files and widget values of the examples.
\<close>

definition rows_of :: "error + dataframe \<Rightarrow> row list" where
  "rows_of res = (case res of Inl e \<Rightarrow> [] | Inr df \<Rightarrow> rows df)"

definition issuer_sheet :: dataframe where
  "issuer_sheet = \<lparr>columns = [''Issuer country'', ''Merchant''],
     rows = [[(''Issuer country'', Str ''US''), (''Merchant'', Str ''M1'')],
             [(''Issuer country'', Str ''US''), (''Merchant'', Str ''M2'')],
             [(''Issuer country'', Str ''FR''), (''Merchant'', Str ''M1'')],
             [(''Issuer country'', Null), (''Merchant'', Str ''M3'')]]\<rparr>"

definition mixed_store :: store where
  "mixed_store = [(''Issuer'', \<lparr>columns = [''Issuer''],
      rows = [[(''Issuer'', Str ''Acme'')], [(''Issuer'', Num 42)]]\<rparr>)]"

definition two_sheets :: store where
  "two_sheets =
     [(''Issuer'', \<lparr>columns = [''Issuer'', ''Issuer country''],
         rows = [[(''Issuer'', Str ''Zed''), (''Issuer country'', Str ''US'')],
                 [(''Issuer'', Str ''Acme''), (''Issuer country'', Null)],
                 [(''Issuer'', Null), (''Issuer country'', Str ''FR'')]]\<rparr>),
      (''Merchant'', \<lparr>columns = [''Merchant'', ''Issuer''],
         rows = [[(''Merchant'', Str ''M1''), (''Issuer'', Str ''Bank'')],
                 [(''Merchant'', Str ''M2''), (''Issuer'', Str ''Acme'')]]\<rparr>),
      (''Region'', \<lparr>columns = [''Issuer region name''],
         rows = [[(''Issuer region name'', Str ''EU'')]]\<rparr>)]"

definition region_a :: dataframe where
  "region_a = \<lparr>columns = [''Issuer region name''],
                rows = [[(''Issuer region name'', Str ''EU'')]]\<rparr>"

definition region_b :: dataframe where
  "region_b = \<lparr>columns = [''Issuer region name''],
                rows = [[(''Issuer region name'', Str ''APAC'')],
                        [(''Issuer region name'', Str ''LAC'')]]\<rparr>"

definition file_a :: uploaded where
  "file_a = \<lparr>upload_name = ''a.xlsx'', upload_book = Some [(''Region'', region_a)]\<rparr>"

definition file_b :: uploaded where
  "file_b = \<lparr>upload_name = ''b.xlsx'', upload_book = Some [(''Region'', region_b)]\<rparr>"

definition first_sheet_no_filter :: widgets where
  "first_sheet_no_filter =
     \<lparr>sheets_widget = take 1, exclude_mode = False, filter_widget = (\<lambda>col opts. []),
      reset_button = False\<rparr>"

definition reset_clicked :: widgets where
  "reset_clicked = first_sheet_no_filter\<lparr>reset_button := True\<rparr>"

definition exclude_first_value :: widgets where
  "exclude_first_value =
     \<lparr>sheets_widget = take 1, exclude_mode = True, filter_widget = (\<lambda>col opts. take 1 opts),
      reset_button = False\<rparr>"

definition no_acquirer_book :: store where
  "no_acquirer_book = map (\<lambda>sh. (sh, region_a))
       [''Region'', ''Issuer'', ''Merchant'', ''Issuer-Merchant'', ''Issuer-Acquirer'',
        ''Acquirer-Merchant'', ''Issuer-Acquirer-Merchant'', ''Notes'']"

definition other_book :: store where
  "other_book = [(''Notes'', region_a), (''Sheet1'', region_b)]"

section \<open>Basic facts\<close>

lemma mask_of_pred:
  "map fst (filter snd (zip xs (map p xs))) = filter p xs"
  by (induction xs) auto

lemma getitem_mask_isin:
  "getitem_mask df (isin (map (\<lambda>r. cell_at r c) (rows df)) vs)
     = df\<lparr>rows := filter (\<lambda>r. cell_at r c \<in> set vs) (rows df)\<rparr>"
proof -
  have "isin (map (\<lambda>r. cell_at r c) (rows df)) vs = map (\<lambda>r. cell_at r c \<in> set vs) (rows df)"
    by (simp add: isin_def comp_def)
  then show ?thesis
    by (simp add: getitem_mask_def mask_of_pred)
qed

lemma getitem_mask_not_isin:
  "getitem_mask df (invert (isin (map (\<lambda>r. cell_at r c) (rows df)) vs))
     = df\<lparr>rows := filter (\<lambda>r. cell_at r c \<notin> set vs) (rows df)\<rparr>"
proof -
  have "invert (isin (map (\<lambda>r. cell_at r c) (rows df)) vs)
          = map (\<lambda>r. cell_at r c \<notin> set vs) (rows df)"
    by (simp add: isin_def invert_def comp_def)
  then show ?thesis
    by (simp add: getitem_mask_def mask_of_pred)
qed

lemma filtered_df_step:
  "filtered_df ex ((c, vs) # fs) df =
     (if active df (c, vs)
      then filtered_df ex fs (df\<lparr>rows := filter (col_pred ex c vs) (rows df)\<rparr>)
      else filtered_df ex fs df)"
proof (cases "active df (c, vs)")
  case False
  then show ?thesis by (auto simp: active_def)
next
  case True
  then have g: "getitem_col df c = Inr (map (\<lambda>r. cell_at r c) (rows df))"
    by (simp add: active_def getitem_col_def)
  have p: "col_pred ex c vs = (\<lambda>r. if ex then cell_at r c \<notin> set vs else cell_at r c \<in> set vs)"
    by (rule ext) (simp add: col_pred_def)
  show ?thesis
  proof (cases ex)
    case True
    with \<open>active df (c, vs)\<close> g p show ?thesis
      by (simp add: active_def getitem_mask_not_isin)
  next
    case False
    with \<open>active df (c, vs)\<close> g p show ?thesis
      by (simp add: active_def getitem_mask_isin)
  qed
qed

lemma filtered_df_rows:
  "filtered_df ex fs df = Inr (df\<lparr>rows := filter (survives ex fs df) (rows df)\<rparr>)"
proof (induction fs arbitrary: df)
  case Nil
  then show ?case by (simp add: survives_def)
next
  case (Cons f fs)
  obtain c vs where f: "f = (c, vs)" by (cases f)
  show ?case
  proof (cases "active df (c, vs)")
    case True
    let ?df' = "df\<lparr>rows := filter (col_pred ex c vs) (rows df)\<rparr>"
    have a: "active ?df' = active df"
      by (rule ext) (simp add: active_def)
    have s: "survives ex fs ?df' = survives ex fs df"
      by (rule ext) (simp add: survives_def a)
    have "filtered_df ex (f # fs) df = filtered_df ex fs ?df'"
      using True by (simp only: f filtered_df_step if_True)
    also have "\<dots> = Inr (?df'\<lparr>rows := filter (survives ex fs ?df') (rows ?df')\<rparr>)"
      by (rule Cons.IH)
    also have "\<dots> = Inr (df\<lparr>rows := filter (survives ex (f # fs) df) (rows df)\<rparr>)"
    proof -
      have "survives ex (f # fs) df = (\<lambda>r. col_pred ex c vs r \<and> survives ex fs df r)"
        using True by (intro ext) (simp add: f survives_def)
      then show ?thesis
        by (simp add: s conj_commute)
    qed
    finally show ?thesis .
  next
    case False
    have "filtered_df ex (f # fs) df = filtered_df ex fs df"
      using False by (simp only: f filtered_df_step if_False)
    also have "\<dots> = Inr (df\<lparr>rows := filter (survives ex fs df) (rows df)\<rparr>)"
      by (rule Cons.IH)
    also have "\<dots> = Inr (df\<lparr>rows := filter (survives ex (f # fs) df) (rows df)\<rparr>)"
    proof -
      have "survives ex (f # fs) df = survives ex fs df"
        using False by (intro ext) (simp add: f survives_def)
      then show ?thesis by simp
    qed
    finally show ?thesis .
  qed
qed

lemma single_filter:
  assumes "C \<in> set (columns T)" and "V \<noteq> []"
  shows "filtered_df ex [(C, V)] T = Inr (T\<lparr>rows := filter (col_pred ex C V) (rows T)\<rparr>)"
proof -
  have "survives ex [(C, V)] T = col_pred ex C V"
    using assms by (intro ext) (simp add: survives_def active_def)
  then show ?thesis by (simp add: filtered_df_rows)
qed

lemma survives_iff:
  "survives ex S T r \<longleftrightarrow> (\<forall>f \<in> set S. active T f \<longrightarrow> col_pred ex (fst f) (snd f) r)"
  by (auto simp: survives_def list_all_iff)

lemma length_filter_both:
  "length (filter p xs) + length (filter (\<lambda>x. \<not> p x) xs) = length xs"
  by (induction xs) auto

section \<open>The filter of one column\<close>

text \<open>
  C1. For a table \<open>T\<close>, a filter column \<open>C\<close> of \<open>T\<close> and a non-empty list \<open>V\<close> of selected
  values, include mode keeps exactly the rows of \<open>T\<close> whose cell in \<open>C\<close> is in \<open>V\<close>, and
  exclude mode keeps exactly the rows whose cell in \<open>C\<close> is not in \<open>V\<close>. The values offered
  for selection never contain the empty cell (\<open>options_never_null\<close>,
  \<open>build_filters_no_null\<close>); for such a \<open>V\<close> a row with an empty cell in \<open>C\<close> is removed
  under include and kept under exclude.
\<close>

theorem include_exclude_single_column:
  assumes "C \<in> set (columns T)" and "V \<noteq> []"
  shows "filtered_df False [(C, V)] T
           = Inr (T\<lparr>rows := filter (\<lambda>r. cell_at r C \<in> set V) (rows T)\<rparr>)
       \<and> filtered_df True [(C, V)] T
           = Inr (T\<lparr>rows := filter (\<lambda>r. cell_at r C \<notin> set V) (rows T)\<rparr>)
       \<and> (Null \<notin> set V \<longrightarrow>
            (\<forall>r \<in> set (rows T). cell_at r C = Null \<longrightarrow>
               r \<notin> set (rows_of (filtered_df False [(C, V)] T))
             \<and> r \<in> set (rows_of (filtered_df True [(C, V)] T))))"
proof -
  have i: "col_pred False C V = (\<lambda>r. cell_at r C \<in> set V)"
    by (intro ext) (simp add: col_pred_def)
  have e: "col_pred True C V = (\<lambda>r. cell_at r C \<notin> set V)"
    by (intro ext) (simp add: col_pred_def)
  show ?thesis
    using single_filter [OF assms, of False] single_filter [OF assms, of True]
    by (simp add: i e rows_of_def)
qed

theorem include_exclude_single_column_witness:
  "''Issuer country'' \<in> set (columns issuer_sheet) \<and> [Str ''US''] \<noteq> []
   \<and> Null \<notin> set [Str ''US'']
   \<and> rows_of (filtered_df False [(''Issuer country'', [Str ''US''])] issuer_sheet)
       = [[(''Issuer country'', Str ''US''), (''Merchant'', Str ''M1'')],
          [(''Issuer country'', Str ''US''), (''Merchant'', Str ''M2'')]]
   \<and> rows_of (filtered_df True [(''Issuer country'', [Str ''US''])] issuer_sheet)
       = [[(''Issuer country'', Str ''FR''), (''Merchant'', Str ''M1'')],
          [(''Issuer country'', Null), (''Merchant'', Str ''M3'')]]"
  using include_exclude_single_column [of "''Issuer country''" issuer_sheet "[Str ''US'']"]
  by (simp add: issuer_sheet_def rows_of_def cell_at_def)

text \<open>
  C10. For a filter column \<open>C\<close> of \<open>T\<close> and a non-empty \<open>V\<close>, the include result and the
  exclude result split the rows of \<open>T\<close>: together they are the rows of \<open>T\<close> counted with
  repetition, no row is in both, and the two row counts add up to the row count of \<open>T\<close>.
\<close>

theorem include_exclude_partition:
  assumes "C \<in> set (columns T)" and "V \<noteq> []"
  shows "\<exists>Ti Te. filtered_df False [(C, V)] T = Inr Ti \<and> filtered_df True [(C, V)] T = Inr Te
     \<and> mset (rows Ti) + mset (rows Te) = mset (rows T)
     \<and> set (rows Ti) \<inter> set (rows Te) = {}
     \<and> length (rows Ti) + length (rows Te) = length (rows T)"
proof -
  have e: "col_pred True C V = (\<lambda>r. \<not> col_pred False C V r)"
    by (intro ext) (simp add: col_pred_def)
  show ?thesis
    using single_filter [OF assms, of False] single_filter [OF assms, of True]
    by (auto simp: e length_filter_both)
qed

theorem include_exclude_partition_witness:
  "''Issuer country'' \<in> set (columns issuer_sheet) \<and> [Str ''US''] \<noteq> []
   \<and> length (rows_of (filtered_df False [(''Issuer country'', [Str ''US''])] issuer_sheet)) = 2
   \<and> length (rows_of (filtered_df True [(''Issuer country'', [Str ''US''])] issuer_sheet)) = 2
   \<and> length (rows issuer_sheet) = 4"
  using include_exclude_partition [of "''Issuer country''" issuer_sheet "[Str ''US'']"]
  by (simp add: issuer_sheet_def rows_of_def cell_at_def isin_def invert_def
      getitem_col_def getitem_mask_def)

section \<open>The filters of all columns\<close>

text \<open>
  C2. When every filter column of the dictionary has an empty list of selected values, the
  filters return the table as it is, in include mode and in exclude mode.
\<close>

theorem empty_selection_identity:
  assumes "list_all (\<lambda>f. snd f = []) S"
  shows "filtered_df ex S T = Inr T"
proof -
  have "filter (active T) S = []"
    using assms by (induction S) (auto simp: active_def)
  then have "survives ex S T = (\<lambda>r. True)"
    by (intro ext) (simp add: survives_def)
  then show ?thesis by (simp add: filtered_df_rows)
qed

theorem empty_selection_identity_witness:
  "list_all (\<lambda>f. snd f = []) [(''Issuer country'', []), (''Merchant'', [])]
   \<and> filtered_df False [(''Issuer country'', []), (''Merchant'', [])] issuer_sheet
       = Inr issuer_sheet
   \<and> filtered_df True [(''Issuer country'', []), (''Merchant'', [])] issuer_sheet
       = Inr issuer_sheet"
  using empty_selection_identity [of "[(''Issuer country'', []), (''Merchant'', [])]" False issuer_sheet]
    empty_selection_identity [of "[(''Issuer country'', []), (''Merchant'', [])]" True issuer_sheet]
  by simp

text \<open>
  C4. The filters are a conjunction: the result keeps, in place, exactly the rows of \<open>T\<close>
  that satisfy the predicate of every active filter column (a column of the dictionary
  that is a column of \<open>T\<close> and has a non-empty selection), and two dictionaries with the
  same entries in a different order give the same result.
\<close>

theorem conjunctive_across_columns:
  "filtered_df ex S T
     = Inr (T\<lparr>rows := filter (\<lambda>r. \<forall>f \<in> set S. active T f \<longrightarrow> col_pred ex (fst f) (snd f) r)
                          (rows T)\<rparr>)
   \<and> (set S' = set S \<longrightarrow> filtered_df ex S' T = filtered_df ex S T)"
proof -
  have sv: "survives ex F T = (\<lambda>r. \<forall>f \<in> set F. active T f \<longrightarrow> col_pred ex (fst f) (snd f) r)"
    for F
    by (intro ext) (rule survives_iff)
  have "set S' = set S \<Longrightarrow> survives ex S' T = survives ex S T"
    by (simp add: sv)
  then show ?thesis
    by (auto simp: filtered_df_rows sv)
qed

theorem conjunctive_across_columns_witness:
  "set [(''Merchant'', [Str ''M1'']), (''Issuer country'', [Str ''US''])]
     = set [(''Issuer country'', [Str ''US'']), (''Merchant'', [Str ''M1''])]
   \<and> filtered_df False [(''Merchant'', [Str ''M1'']), (''Issuer country'', [Str ''US''])] issuer_sheet
     = filtered_df False [(''Issuer country'', [Str ''US'']), (''Merchant'', [Str ''M1''])] issuer_sheet
   \<and> rows_of (filtered_df False [(''Issuer country'', [Str ''US'']), (''Merchant'', [Str ''M1''])]
        issuer_sheet)
     = [[(''Issuer country'', Str ''US''), (''Merchant'', Str ''M1'')]]"
proof -
  have s: "set [(''Merchant'', [Str ''M1'']), (''Issuer country'', [Str ''US''])]
     = set [(''Issuer country'', [Str ''US'']), (''Merchant'', [Str ''M1''])]"
    by auto
  have r: "rows_of (filtered_df False [(''Issuer country'', [Str ''US'']), (''Merchant'', [Str ''M1''])]
        issuer_sheet)
     = [[(''Issuer country'', Str ''US''), (''Merchant'', Str ''M1'')]]"
    by (simp add: issuer_sheet_def rows_of_def cell_at_def isin_def invert_def
      getitem_col_def getitem_mask_def)
  from s r conjunctive_across_columns
    [of False "[(''Issuer country'', [Str ''US'']), (''Merchant'', [Str ''M1''])]" issuer_sheet
      "[(''Merchant'', [Str ''M1'']), (''Issuer country'', [Str ''US''])]"]
  show ?thesis by blast
qed

text \<open>
  C5. Filtering is idempotent: the filters return a table, and applying the same filters
  to that table returns it again.
\<close>

theorem filtering_idempotent:
  "\<exists>T'. filtered_df ex S T = Inr T' \<and> filtered_df ex S T' = Inr T'"
proof -
  let ?T' = "T\<lparr>rows := filter (survives ex S T) (rows T)\<rparr>"
  have a: "active ?T' = active T"
    by (rule ext) (simp add: active_def)
  have s: "survives ex S ?T' = survives ex S T"
    by (rule ext) (simp add: survives_def a)
  have "filtered_df ex S ?T' = Inr ?T'"
    by (simp add: filtered_df_rows [of ex S ?T'] s)
  then show ?thesis
    by (simp add: filtered_df_rows [of ex S T])
qed

text \<open>
  C6. Filtering is stable: the filters return a table with the columns of \<open>T\<close> whose rows
  are a subsequence of the rows of \<open>T\<close>, so the surviving rows keep their relative order.
\<close>

theorem filtering_stable:
  "\<exists>T'. filtered_df ex S T = Inr T' \<and> subseq (rows T') (rows T) \<and> columns T' = columns T"
  by (simp add: filtered_df_rows)

section \<open>Facts about the candidate values\<close>

lemma set_set_update: "set (set_update s vs) = set s \<union> set vs"
  unfolding set_update_def by (induction vs arbitrary: s) auto

lemma distinct_set_update: "distinct s \<Longrightarrow> distinct (set_update s vs)"
  unfolding set_update_def by (induction vs arbitrary: s) auto

lemma set_unique_dropna: "set (unique (dropna series)) = {v \<in> set series. v \<noteq> Null}"
  by (auto simp: unique_def dropna_def)

lemma collect_unique_set:
  assumes "set sheets \<subseteq> fst ` set d"
  shows "\<exists>s. collect_unique d c sheets acc = Inr s
           \<and> set s = set acc \<union> collectValues d sheets c
           \<and> (distinct acc \<longrightarrow> distinct s)"
  using assms
proof (induction sheets arbitrary: acc)
  case Nil
  then show ?case by (simp add: collectValues_def)
next
  case (Cons sheet sheets)
  from Cons.prems obtain df where df: "map_of d sheet = Some df"
    by (cases "map_of d sheet") (auto simp: map_of_eq_None_iff)
  from Cons.prems have sub: "set sheets \<subseteq> fst ` set d" by simp
  have cv: "collectValues d (sheet # sheets) c
      = (if c \<in> set (columns df) then distinct_non_null df c else {}) \<union> collectValues d sheets c"
    by (simp add: collectValues_def df)
  show ?case
  proof (cases "c \<in> set (columns df)")
    case True
    let ?acc' = "set_update acc (unique (dropna (map (\<lambda>r. cell_at r c) (rows df))))"
    from Cons.IH [OF sub, of ?acc'] obtain s where
      s: "collect_unique d c sheets ?acc' = Inr s"
         "set s = set ?acc' \<union> collectValues d sheets c"
         "distinct ?acc' \<longrightarrow> distinct s"
      by blast
    have "set ?acc' = set acc \<union> distinct_non_null df c"
      by (auto simp: set_set_update set_unique_dropna distinct_non_null_def)
    with s True df show ?thesis
      by (auto simp: getitem_col_def cv distinct_set_update)
  next
    case False
    from Cons.IH [OF sub, of acc] False df show ?thesis
      by (simp add: cv)
  qed
qed

lemma null_notin_collectValues: "Null \<notin> collectValues d sheets c"
  by (auto simp: collectValues_def distinct_non_null_def split: option.splits if_splits)

lemma list_all_is_str: "list_all is_str s \<longleftrightarrow> set s \<subseteq> range Str"
proof -
  have "is_str v \<longleftrightarrow> v \<in> range Str" for v by (cases v) auto
  then show ?thesis by (auto simp: list_all_iff)
qed

lemma list_all_is_num: "list_all is_num s \<longleftrightarrow> set s \<subseteq> range Num"
proof -
  have "is_num v \<longleftrightarrow> v \<in> range Num" for v by (cases v) auto
  then show ?thesis by (auto simp: list_all_iff)
qed

lemma Str_the_str: "v \<in> range Str \<Longrightarrow> Str (the_str v) = v"
  by auto

lemma Num_the_num: "v \<in> range Num \<Longrightarrow> Num (the_num v) = v"
  by auto

lemma inj_on_the_str: "A \<subseteq> range Str \<Longrightarrow> inj_on the_str A"
  by (rule inj_on_inverseI [of _ Str]) (auto simp: Str_the_str)

lemma inj_on_the_num: "A \<subseteq> range Num \<Longrightarrow> inj_on the_num A"
  by (rule inj_on_inverseI [of _ Num]) (auto simp: Num_the_num)

lemma image_Str_the_str: "A \<subseteq> range Str \<Longrightarrow> Str ` the_str ` A = A"
  by (force simp: image_iff)

lemma image_Num_the_num: "A \<subseteq> range Num \<Longrightarrow> Num ` the_num ` A = A"
  by (force simp: image_iff)

lemma sort_distinct_inj:
  fixes f :: "cell \<Rightarrow> 'b::linorder"
  assumes "distinct s" and "inj_on f (set s)"
  shows "sort (map f s) = sorted_list_of_set (f ` set s)"
proof -
  have "distinct (map f s)" using assms by (simp add: distinct_map)
  then have "sort (map f s) = sort (remdups (map f s))" by (simp add: distinct_remdups_id)
  also have "\<dots> = sorted_list_of_set (set (map f s))"
    by (rule sorted_list_of_set_sort_remdups [symmetric])
  finally show ?thesis by simp
qed

lemma sorted_py_canon:
  assumes "distinct s" and "Null \<notin> set s"
  shows "sorted_py s = canon (set s)"
proof (cases "set s \<subseteq> range Str")
  case True
  then have inj: "inj_on the_str (set s)" by (rule inj_on_the_str)
  have "length s \<le> 1 \<Longrightarrow> map Str (sort (map the_str s)) = s"
    using True by (cases s) auto
  then show ?thesis
    using True assms(1) inj
    by (auto simp: sorted_py_def canon_def list_all_is_str sort_distinct_inj)
next
  case notstr: False
  show ?thesis
  proof (cases "set s \<subseteq> range Num")
    case True
    then have inj: "inj_on the_num (set s)" by (rule inj_on_the_num)
    have "length s \<le> 1 \<Longrightarrow> map Num (sort (map the_num s)) = s"
      using True by (cases s) auto
    then show ?thesis
      using True notstr assms(1) inj
      by (auto simp: sorted_py_def canon_def list_all_is_str list_all_is_num sort_distinct_inj)
  next
    case False
    have "\<not> length s \<le> 1"
    proof
      assume "length s \<le> 1"
      then consider "s = []" | v where "s = [v]"
        by (cases s) auto
      then show False
      proof cases
        case 1 with notstr show False by simp
      next
        case 2
        with assms(2) notstr False show False by (cases v) auto
      qed
    qed
    with notstr False show ?thesis
      by (simp add: sorted_py_def canon_def list_all_is_str list_all_is_num)
  qed
qed

lemma unique_values_canon:
  assumes "set sheets \<subseteq> fst ` set d"
  shows "unique_values d sheets c = canon (collectValues d sheets c)"
proof -
  from collect_unique_set [OF assms, of c "[]"] obtain s where
    s: "collect_unique d c sheets [] = Inr s" "set s = collectValues d sheets c" "distinct s"
    by auto
  have n: "Null \<notin> set s" by (simp add: s null_notin_collectValues)
  show ?thesis
  proof (cases "s = []")
    case True
    with s show ?thesis by (simp add: unique_values_def canon_def)
  next
    case False
    with s sorted_py_canon [OF s(3) n] show ?thesis by (simp add: unique_values_def)
  qed
qed

lemma canon_sorted:
  assumes "finite U" and "canon U = Inr vs"
  shows "set vs = U \<and> sorted_wrt cell_less vs"
proof (cases "U \<subseteq> range Str")
  case True
  then have im: "Str ` the_str ` U = U" by (rule image_Str_the_str)
  from True assms have vs: "vs = map Str (sorted_list_of_set (the_str ` U))"
    by (simp add: canon_def)
  have "sorted_wrt (<) (sorted_list_of_set (the_str ` U))"
    using assms(1) by simp
  then have "sorted_wrt cell_less vs"
    by (simp add: vs sorted_wrt_map)
  moreover have "set vs = U" using assms(1) im by (simp add: vs)
  ultimately show ?thesis by simp
next
  case notstr: False
  with assms have num: "U \<subseteq> range Num" by (auto simp: canon_def split: if_splits)
  then have im: "Num ` the_num ` U = U" by (rule image_Num_the_num)
  from notstr num assms have vs: "vs = map Num (sorted_list_of_set (the_num ` U))"
    by (simp add: canon_def)
  have "sorted_wrt (<) (sorted_list_of_set (the_num ` U))"
    using assms(1) by simp
  then have "sorted_wrt cell_less vs"
    by (simp add: vs sorted_wrt_map)
  moreover have "set vs = U" using assms(1) im by (simp add: vs)
  ultimately show ?thesis by simp
qed

lemma finite_collectValues: "finite (collectValues d sheets c)"
  by (auto simp: collectValues_def distinct_non_null_def split: option.splits)

lemma collect_unique_no_null:
  "collect_unique d c sheets acc = Inr s \<Longrightarrow> Null \<notin> set acc \<Longrightarrow> Null \<notin> set s"
proof (induction sheets arbitrary: acc)
  case Nil
  then show ?case by simp
next
  case (Cons sheet sheets)
  then show ?case
    by (auto simp: set_set_update set_unique_dropna getitem_col_def
        split: option.splits if_splits)
qed

lemma sorted_py_set:
  assumes "sorted_py s = Inr vs"
  shows "set vs = set s"
proof (cases "length s \<le> 1")
  case True
  with assms show ?thesis by (simp add: sorted_py_def)
next
  case long: False
  show ?thesis
  proof (cases "list_all is_str s")
    case True
    then have "Str ` the_str ` set s = set s"
      by (intro image_Str_the_str) (simp add: list_all_is_str)
    moreover from assms long True have "vs = map Str (sort (map the_str s))"
      by (simp add: sorted_py_def)
    ultimately show ?thesis by (simp add: image_comp)
  next
    case False
    with assms long have n: "list_all is_num s" and v: "vs = map Num (sort (map the_num s))"
      by (auto simp: sorted_py_def split: if_splits)
    from n have "Num ` the_num ` set s = set s"
      by (intro image_Num_the_num) (simp add: list_all_is_num)
    with v show ?thesis by (simp add: image_comp)
  qed
qed

lemma options_never_null:
  assumes "unique_values d sheets c = Inr vs"
  shows "Null \<notin> set vs"
proof -
  from assms obtain s where s: "collect_unique d c sheets [] = Inr s"
    and r: "(if s \<noteq> [] then sorted_py s else Inr s) = Inr vs"
    by (auto simp: unique_values_def split: sum.splits)
  from s have n: "Null \<notin> set s"
    by (rule collect_unique_no_null) simp
  from r have "set vs = set s"
    by (cases "s = []") (auto dest: sorted_py_set)
  with n show ?thesis by simp
qed

lemma in_set_update:
  "p \<in> set (AList.update k v al) \<Longrightarrow> p = (k, v) \<or> p \<in> set al"
  by (induction al) (auto split: if_splits)

lemma build_filters_no_null:
  assumes "\<And>col opts. set (filter_widget w col opts) \<subseteq> set opts"
    and "build_filters w d sel cols fs0 = Inr fs"
    and "\<And>c vs. (c, vs) \<in> set fs0 \<Longrightarrow> Null \<notin> set vs"
    and "(c, vs) \<in> set fs"
  shows "Null \<notin> set vs"
  using assms(2-4)
proof (induction cols arbitrary: fs0)
  case Nil
  then show ?case by auto
next
  case (Cons col cols)
  show ?case
  proof (cases "collect_unique d col sel []")
    case (Inl e)
    with Cons.prems(1) show ?thesis by simp
  next
    case (Inr s)
    show ?thesis
    proof (cases "s = []")
      case True
      with Inr Cons.prems(1) have "build_filters w d sel cols fs0 = Inr fs" by simp
      from Cons.IH [OF this Cons.prems(2) Cons.prems(3)] show ?thesis by simp
    next
      case False
      with Inr Cons.prems(1) obtain opts where o: "sorted_py s = Inr opts"
        and b: "build_filters w d sel cols
                  (AList.update col (filter_widget w col opts) fs0) = Inr fs"
        by (auto split: sum.splits)
      from Inr have "Null \<notin> set s"
        by (rule collect_unique_no_null) simp
      with sorted_py_set [OF o] have "Null \<notin> set opts" by simp
      with assms(1) [of col opts] have n: "Null \<notin> set (filter_widget w col opts)" by auto
      have "Null \<notin> set vs'"
        if "(c', vs') \<in> set (AList.update col (filter_widget w col opts) fs0)" for c' vs'
        using in_set_update [OF that] n Cons.prems(2) by auto
      from Cons.IH [OF b this Cons.prems(3)] show ?thesis by simp
    qed
  qed
qed

section \<open>The candidate values offered for a filter column\<close>

text \<open>
  C3, as the code has it. For a selection of loaded sheets and a filter column whose
  non-empty cells over the selected tables that have the column are all texts or all
  numbers, the values collected for the column are exactly the union, over the selected
  tables that have the column, of the distinct non-empty cells of the column, in strictly
  ascending order; and any selection with the same set of sheets collects the same list.
\<close>

theorem candidate_values_sorted_union:
  assumes "set selected_sheets \<subseteq> fst ` set loaded"
    and "collectValues loaded selected_sheets filter_col \<subseteq> range Str
       \<or> collectValues loaded selected_sheets filter_col \<subseteq> range Num"
  shows "(\<exists>vs. unique_values loaded selected_sheets filter_col = Inr vs
            \<and> set vs = collectValues loaded selected_sheets filter_col
            \<and> sorted_wrt cell_less vs)
       \<and> (set sheets' = set selected_sheets \<longrightarrow>
            unique_values loaded sheets' filter_col
              = unique_values loaded selected_sheets filter_col)"
proof -
  let ?U = "collectValues loaded selected_sheets filter_col"
  have u: "unique_values loaded selected_sheets filter_col = canon ?U"
    by (rule unique_values_canon [OF assms(1)])
  from assms(2) have "\<exists>vs. canon ?U = Inr vs"
    by (cases "?U \<subseteq> range Str") (simp_all add: canon_def)
  then obtain vs where vs: "canon ?U = Inr vs" ..
  have "set vs = ?U \<and> sorted_wrt cell_less vs"
    by (rule canon_sorted [OF finite_collectValues vs])
  with u vs have first: "\<exists>vs. unique_values loaded selected_sheets filter_col = Inr vs
            \<and> set vs = ?U \<and> sorted_wrt cell_less vs"
    by simp
  have "unique_values loaded sheets' filter_col
          = unique_values loaded selected_sheets filter_col"
    if eq: "set sheets' = set selected_sheets"
  proof -
    from eq assms(1) have "set sheets' \<subseteq> fst ` set loaded" by simp
    then have "unique_values loaded sheets' filter_col
        = canon (collectValues loaded sheets' filter_col)"
      by (rule unique_values_canon)
    moreover have "collectValues loaded sheets' filter_col = ?U"
      by (simp add: collectValues_def eq)
    ultimately show ?thesis by (simp add: u)
  qed
  with first show ?thesis by blast
qed

theorem candidate_values_sorted_union_witness:
  "set [''Merchant'', ''Issuer''] \<subseteq> fst ` set two_sheets
   \<and> collectValues two_sheets [''Merchant'', ''Issuer''] ''Issuer'' \<subseteq> range Str
   \<and> unique_values two_sheets [''Merchant'', ''Issuer''] ''Issuer''
       = Inr [Str ''Acme'', Str ''Bank'', Str ''Zed'']
   \<and> unique_values two_sheets [''Issuer'', ''Merchant''] ''Issuer''
       = unique_values two_sheets [''Merchant'', ''Issuer''] ''Issuer''"
proof -
  have k: "set [''Merchant'', ''Issuer''] \<subseteq> fst ` set two_sheets"
    by (simp add: two_sheets_def)
  have "collectValues two_sheets [''Merchant'', ''Issuer''] ''Issuer''
          = {Str ''Acme'', Str ''Bank'', Str ''Zed''}"
    by (auto simp: collectValues_def two_sheets_def distinct_non_null_def cell_at_def)
  then have h: "collectValues two_sheets [''Merchant'', ''Issuer''] ''Issuer'' \<subseteq> range Str"
    by simp
  have v: "unique_values two_sheets [''Merchant'', ''Issuer''] ''Issuer''
       = Inr [Str ''Acme'', Str ''Bank'', Str ''Zed'']"
    by code_simp
  have s: "set [''Issuer'', ''Merchant''] = set [''Merchant'', ''Issuer'']"
    by auto
  from candidate_values_sorted_union [OF k disjI1 [OF h], of "[''Issuer'', ''Merchant'']"] s
  have "unique_values two_sheets [''Issuer'', ''Merchant''] ''Issuer''
       = unique_values two_sheets [''Merchant'', ''Issuer''] ''Issuer''"
    by blast
  with k h v show ?thesis by blast
qed

text \<open>
  C3 as stated fails where a column holds a text and a number: Python's \<open>sorted\<close> cannot
  compare them and raises, so no values are collected for the column.
\<close>

theorem candidate_values_mixed_counterexample:
  "unique_values mixed_store [''Issuer''] ''Issuer'' = Inl TypeError
   \<and> collectValues mixed_store [''Issuer''] ''Issuer'' = {Str ''Acme'', Num 42}"
proof -
  have "unique_values mixed_store [''Issuer''] ''Issuer'' = Inl TypeError"
    by code_simp
  moreover have "collectValues mixed_store [''Issuer''] ''Issuer'' = {Str ''Acme'', Num 42}"
    by (auto simp: collectValues_def mixed_store_def distinct_non_null_def cell_at_def)
  ultimately show ?thesis by simp
qed

section \<open>Facts about loading and display\<close>

lemma update_fresh: "k \<notin> fst ` set d \<Longrightarrow> AList.update k v d = d @ [(k, v)]"
  by (induction d) auto

lemma fst_found: "fst ` set (found wb sheets) \<subseteq> set sheets"
  by (auto simp: found_def List.map_filter_def)

lemma load_sheets_store:
  assumes "distinct sheets" and "set sheets \<inter> fst ` set dfs = {}"
  shows "fst (load_sheets nm wb sheets dfs) = dfs @ found wb sheets"
  using assms
proof (induction sheets arbitrary: dfs)
  case Nil
  then show ?case by (simp add: found_def List.map_filter_def)
next
  case (Cons sheet sheets)
  show ?case
  proof (cases "map_of wb sheet")
    case None
    from Cons.prems have "fst (load_sheets nm wb sheets dfs) = dfs @ found wb sheets"
      by (intro Cons.IH) auto
    with None show ?thesis
      by (simp add: found_def List.map_filter_def case_prod_beta)
  next
    case (Some df)
    from Cons.prems have fresh: "sheet \<notin> fst ` set dfs" by auto
    then have u: "AList.update sheet df dfs = dfs @ [(sheet, df)]"
      by (rule update_fresh)
    from Cons.prems have "fst (load_sheets nm wb sheets (dfs @ [(sheet, df)]))
        = (dfs @ [(sheet, df)]) @ found wb sheets"
      by (intro Cons.IH) auto
    with Some u show ?thesis
      by (simp add: found_def List.map_filter_def case_prod_beta)
  qed
qed

lemma load_sheets_events:
  "snd (load_sheets nm wb sheets dfs)
     = map (\<lambda>sh. case map_of wb sh of None \<Rightarrow> Warning_sheet_not_found sh
                                    | Some df \<Rightarrow> Read_sheet nm sh) sheets"
  by (induction sheets arbitrary: dfs) (auto simp: case_prod_beta split: option.splits)

lemma warned_sheets_append: "warned_sheets (xs @ ys) = warned_sheets xs @ warned_sheets ys"
  by (induction xs rule: warned_sheets.induct) auto

lemma read_sheets_append: "read_sheets (xs @ ys) = read_sheets xs @ read_sheets ys"
  by (induction xs rule: read_sheets.induct) auto

lemma warned_load:
  "warned_sheets (snd (load_sheets nm wb sheets dfs)) = filter (\<lambda>sh. map_of wb sh = None) sheets"
  unfolding load_sheets_events by (induction sheets) (auto split: option.splits)

lemma read_load:
  "read_sheets (snd (load_sheets nm wb sheets dfs)) = filter (\<lambda>sh. map_of wb sh \<noteq> None) sheets"
  unfolding load_sheets_events by (induction sheets) (auto split: option.splits)

lemma display_sheets_quiet:
  "warned_sheets (fst (display_sheets ex fs d sheets)) = []
   \<and> read_sheets (fst (display_sheets ex fs d sheets)) = []"
  by (induction sheets) (auto simp: case_prod_beta split: option.splits sum.splits)

lemma display_quiet:
  "warned_sheets (fst (display w d)) = [] \<and> read_sheets (fst (display w d)) = []"
proof -
  have "warned_sheets evs = [] \<and> read_sheets evs = []"
    if "display_sheets ex fs d sheets = (evs, e)" for ex fs sheets evs e
    using display_sheets_quiet [of ex fs d sheets] that by simp
  then show ?thesis
    by (auto simp: display_def Let_def split: sum.splits prod.splits)
qed

lemma map_of_found:
  "map_of (found wb sheets) sh = (if sh \<in> set sheets then map_of wb sh else None)"
  by (induction sheets) (auto simp: found_def split: option.splits)

lemma count_list_distinct:
  "distinct xs \<Longrightarrow> x \<in> set xs \<Longrightarrow> count_list xs x = 1"
  by (induction xs) auto

lemma distinct_expected_sheets: "distinct expected_sheets"
  by (simp add: expected_sheets_def)

lemma script_main_load:
  assumes "dataframes s = None" and "engine_of (upload_name f) = Some engine"
    and "upload_book f = Some wb"
  shows "\<exists>evs err. display w (found wb expected_sheets) = (evs, err)
     \<and> script_main w s (Some f) =
        (s\<lparr>dataframes := Some (found wb expected_sheets)\<rparr>,
         Open_workbook (upload_name f) # snd (load_sheets (upload_name f) wb expected_sheets [])
           @ evs @ (case err of None \<Rightarrow> [] | Some e \<Rightarrow> [Error_reading e]),
         False)"
proof -
  have st: "fst (load_sheets (upload_name f) wb expected_sheets []) = found wb expected_sheets"
    using load_sheets_store [OF distinct_expected_sheets, of "[]" "upload_name f" wb] by simp
  obtain evs err where d: "display w (found wb expected_sheets) = (evs, err)"
    by (cases "display w (found wb expected_sheets)")
  have l: "load_sheets (upload_name f) wb expected_sheets []
      = (found wb expected_sheets, snd (load_sheets (upload_name f) wb expected_sheets []))"
    using st by (simp add: prod_eq_iff)
  show ?thesis
    using assms d
    by (cases err) (simp_all add: script_main_def l [symmetric] case_prod_beta st)
qed

lemma script_main_present:
  assumes "dataframes s = Some d"
  shows "\<exists>evs stopped. script_main w s up = (s, evs, stopped) \<and> read_sheets evs = []"
proof -
  have s: "s\<lparr>dataframes := Some d\<rparr> = s" using assms by simp
  obtain devs err where d: "display w d = (devs, err)" by (cases "display w d")
  have q: "read_sheets devs = []"
    using display_quiet [of w d] d by simp
  show ?thesis
    using assms d q s
    by (auto simp: script_main_def read_sheets_append split: option.splits)
qed

lemma display_sheets_shows:
  "ev \<in> set (fst (display_sheets ex fs d sheets)) \<Longrightarrow> \<exists>n df k. ev = Show_sheet n df k"
  by (induction sheets) (auto simp: case_prod_beta split: option.splits sum.splits)

lemma display_loaded:
  assumes "d \<noteq> []"
  shows "\<exists>rest. fst (display w d) = Success_loaded (length d) # rest
           \<and> Error_no_valid_sheets \<notin> set rest"
proof -
  have "Error_no_valid_sheets \<notin> set evs"
    if "display_sheets ex fs d sheets = (evs, e)" for ex fs sheets evs e
    using display_sheets_shows [of Error_no_valid_sheets ex fs d sheets] that by auto
  with assms show ?thesis
    by (auto simp: display_def Let_def split: sum.splits prod.splits)
qed

lemma found_empty_iff:
  "found wb sheets = [] \<longleftrightarrow> list_all (\<lambda>sh. map_of wb sh = None) sheets"
  by (auto simp: found_def List.map_filter_def list_all_iff filter_empty_conv)

lemma load_events_not_fatal:
  "Error_no_valid_sheets \<notin> set (snd (load_sheets nm wb sheets dfs))"
  by (auto simp: load_sheets_events split: option.splits)

lemma script_main_found:
  assumes "dataframes s = None" and "engine_of (upload_name f) = Some engine"
    and "upload_book f = Some wb"
    and "\<not> list_all (\<lambda>sh. map_of wb sh = None) expected_sheets"
  shows "\<exists>rest. script_main w s (Some f)
           = (s\<lparr>dataframes := Some (found wb expected_sheets)\<rparr>,
              Open_workbook (upload_name f)
                # snd (load_sheets (upload_name f) wb expected_sheets [])
                @ Success_loaded (length (found wb expected_sheets)) # rest, False)
         \<and> Error_no_valid_sheets \<notin> set rest"
proof -
  from script_main_load [OF assms(1-3), of w] obtain devs err where
    d: "display w (found wb expected_sheets) = (devs, err)" and
    m: "script_main w s (Some f) =
        (s\<lparr>dataframes := Some (found wb expected_sheets)\<rparr>,
         Open_workbook (upload_name f) # snd (load_sheets (upload_name f) wb expected_sheets [])
           @ devs @ (case err of None \<Rightarrow> [] | Some e \<Rightarrow> [Error_reading e]),
         False)"
    by blast
  from assms(4) have "found wb expected_sheets \<noteq> []"
    by (simp add: found_empty_iff)
  from display_loaded [OF this, of w] d obtain rest where
    r: "devs = Success_loaded (length (found wb expected_sheets)) # rest"
       "Error_no_valid_sheets \<notin> set rest"
    by auto
  let ?rest = "rest @ (case err of None \<Rightarrow> [] | Some e \<Rightarrow> [Error_reading e])"
  have "Error_no_valid_sheets \<notin> set ?rest"
    using r(2) by (cases err) auto
  moreover have "script_main w s (Some f)
           = (s\<lparr>dataframes := Some (found wb expected_sheets)\<rparr>,
              Open_workbook (upload_name f)
                # snd (load_sheets (upload_name f) wb expected_sheets [])
                @ Success_loaded (length (found wb expected_sheets)) # ?rest, False)"
    using m r(1) by simp
  ultimately show ?thesis by blast
qed

lemma script_main_running:
  assumes "engine_of (upload_name f) = Some engine"
  shows "\<not> snd (snd (script_main w s (Some f)))"
  using assms
  by (auto simp: script_main_def case_prod_beta split: option.splits)

lemma script_main_present_open:
  assumes "dataframes s = Some d" and "engine_of (upload_name f) = Some engine"
    and "upload_book f = Some wb"
  shows "\<exists>evs. script_main w s (Some f) = (s, Open_workbook (upload_name f) # evs, False)
           \<and> read_sheets evs = []"
proof -
  have s: "s\<lparr>dataframes := Some d\<rparr> = s" using assms(1) by simp
  obtain devs err where d: "display w d = (devs, err)" by (cases "display w d")
  have q: "read_sheets devs = []"
    using display_quiet [of w d] d by simp
  show ?thesis
    using assms d q s
    by (cases err) (simp_all add: script_main_def read_sheets_append)
qed

lemma script_reset:
  assumes "reset_button w" and "engine_of (upload_name f) = Some engine"
  shows "script w s (Some f)
           = (fst (script_main w s (Some f))\<lparr>dataframes := None\<rparr>,
              fst (snd (script_main w s (Some f))), True)"
  using assms script_main_running [OF assms(2), of w s]
  by (simp add: script_def case_prod_beta)

lemma script_reset_no_file:
  assumes "reset_button w"
  shows "script w s None = (s\<lparr>dataframes := None\<rparr>, [Info_upload], True)"
  using assms by (simp add: script_def script_main_def)

lemma interaction_reset:
  assumes "reset_button w" and "engine_of (upload_name f) = Some engine"
    and "upload_book f = Some wb"
  shows "dataframes (fst (interaction w s (Some f))) = Some (found wb expected_sheets)"
proof -
  let ?s1 = "fst (script_main w s (Some f))\<lparr>dataframes := None\<rparr>"
  let ?w' = "w\<lparr>reset_button := False\<rparr>"
  have a: "dataframes ?s1 = None" by simp
  from script_main_load [OF a assms(2) assms(3), of ?w'] obtain evs where
    m: "script_main ?w' ?s1 (Some f)
          = (?s1\<lparr>dataframes := Some (found wb expected_sheets)\<rparr>, evs, False)"
    by blast
  then have "script ?w' ?s1 (Some f)
          = (?s1\<lparr>dataframes := Some (found wb expected_sheets)\<rparr>, evs, False)"
    by (simp add: script_def)
  then show ?thesis
    by (simp add: interaction_def script_reset [OF assms(1) assms(2)])
qed

section \<open>Loading a workbook\<close>

text \<open>
  C7. On the run that loads a readable workbook (no \<open>dataframes\<close> key yet, a supported
  extension), every expected sheet the workbook lacks is skipped with exactly one warning
  naming it, and every expected sheet it has is read and stored. When the workbook has at
  least one of the eight the run goes on to report the number of loaded sheets and does
  not report the error that no valid sheets were found; when it has none of the eight the
  run ends with that error.
\<close>

theorem missing_sheets_warned:
  assumes "dataframes s = None" and "engine_of (upload_name f) = Some engine"
    and "upload_book f = Some wb"
  shows "length expected_sheets = 8 \<and> (\<exists>evs. script_main w s (Some f)
           = (s\<lparr>dataframes := Some (found wb expected_sheets)\<rparr>,
              Open_workbook (upload_name f) # evs, False)
     \<and> warned_sheets evs = filter (\<lambda>sh. map_of wb sh = None) expected_sheets
     \<and> read_sheets evs = filter (\<lambda>sh. map_of wb sh \<noteq> None) expected_sheets
     \<and> (\<forall>sh \<in> set expected_sheets. map_of wb sh = None \<longrightarrow>
           count_list (warned_sheets evs) sh = 1
         \<and> map_of (found wb expected_sheets) sh = None)
     \<and> (\<forall>sh \<in> set expected_sheets. map_of wb sh \<noteq> None \<longrightarrow>
           sh \<notin> set (warned_sheets evs)
         \<and> map_of (found wb expected_sheets) sh = map_of wb sh)
     \<and> (\<not> list_all (\<lambda>sh. map_of wb sh = None) expected_sheets \<longrightarrow>
           found wb expected_sheets \<noteq> []
         \<and> Success_loaded (length (found wb expected_sheets)) \<in> set evs
         \<and> Error_no_valid_sheets \<notin> set evs)
     \<and> (list_all (\<lambda>sh. map_of wb sh = None) expected_sheets \<longrightarrow>
           evs = map Warning_sheet_not_found expected_sheets @ [Error_no_valid_sheets]))"
proof -
  have l: "length expected_sheets = 8"
    by (simp add: expected_sheets_def)
  let ?load = "snd (load_sheets (upload_name f) wb expected_sheets [])"
  from script_main_load [OF assms, of w] obtain devs err where
    d: "display w (found wb expected_sheets) = (devs, err)" and
    m: "script_main w s (Some f) =
        (s\<lparr>dataframes := Some (found wb expected_sheets)\<rparr>,
         Open_workbook (upload_name f) # ?load
           @ devs @ (case err of None \<Rightarrow> [] | Some e \<Rightarrow> [Error_reading e]),
         False)"
    by blast
  let ?evs = "?load @ devs @ (case err of None \<Rightarrow> [] | Some e \<Rightarrow> [Error_reading e])"
  have q: "warned_sheets devs = []" and q': "read_sheets devs = []"
    using display_quiet [of w "found wb expected_sheets"] d by simp_all
  have w: "warned_sheets ?evs = filter (\<lambda>sh. map_of wb sh = None) expected_sheets"
    by (cases err) (simp_all add: warned_sheets_append warned_load q)
  have rd: "read_sheets ?evs = filter (\<lambda>sh. map_of wb sh \<noteq> None) expected_sheets"
    by (cases err) (simp_all add: read_sheets_append read_load q')
  have c: "count_list (warned_sheets ?evs) sh = 1"
    if "sh \<in> set expected_sheets" "map_of wb sh = None" for sh
    unfolding w using that distinct_expected_sheets
    by (intro count_list_distinct) auto
  have nf: "found wb expected_sheets \<noteq> []
         \<and> Success_loaded (length (found wb expected_sheets)) \<in> set ?evs
         \<and> Error_no_valid_sheets \<notin> set ?evs"
    if b: "\<not> list_all (\<lambda>sh. map_of wb sh = None) expected_sheets"
  proof -
    from script_main_found [OF assms b, of w] obtain rest where
      r: "script_main w s (Some f)
           = (s\<lparr>dataframes := Some (found wb expected_sheets)\<rparr>,
              Open_workbook (upload_name f)
                # ?load @ Success_loaded (length (found wb expected_sheets)) # rest, False)"
         "Error_no_valid_sheets \<notin> set rest"
      by blast
    from r(1) m have e: "?evs = ?load @ Success_loaded (length (found wb expected_sheets)) # rest"
      by simp
    have "Error_no_valid_sheets \<notin> set ?load"
      by (rule load_events_not_fatal)
    with r(2) have "Error_no_valid_sheets
        \<notin> set (?load @ Success_loaded (length (found wb expected_sheets)) # rest)"
      by simp
    moreover have "Success_loaded (length (found wb expected_sheets))
        \<in> set (?load @ Success_loaded (length (found wb expected_sheets)) # rest)"
      by simp
    moreover from b have "found wb expected_sheets \<noteq> []"
      by (simp add: found_empty_iff)
    ultimately show ?thesis
      by (simp only: e) simp
  qed
  have z: "?evs = map Warning_sheet_not_found expected_sheets @ [Error_no_valid_sheets]"
    if a: "list_all (\<lambda>sh. map_of wb sh = None) expected_sheets"
  proof -
    from a have "found wb expected_sheets = []"
      by (simp add: found_empty_iff)
    with d have "devs = [Error_no_valid_sheets]" "err = None"
      by (simp_all add: display_def)
    moreover from a have "?load = map Warning_sheet_not_found expected_sheets"
      by (simp add: load_sheets_events list_all_iff)
    ultimately show ?thesis by simp
  qed
  have mf: "\<forall>sh \<in> set expected_sheets. map_of (found wb expected_sheets) sh = map_of wb sh"
    by (simp add: map_of_found)
  have nw: "\<forall>sh \<in> set expected_sheets. map_of wb sh \<noteq> None \<longrightarrow> sh \<notin> set (warned_sheets ?evs)"
    by (simp add: w)
  from m w rd c nf z mf nw show ?thesis
    by (intro conjI exI [of _ ?evs] l) (blast | simp)+
qed

theorem missing_sheets_warned_witness:
  "dataframes \<lparr>dataframes = None\<rparr> = None
   \<and> engine_of (upload_name \<lparr>upload_name = ''Q3.XLSX'', upload_book = Some no_acquirer_book\<rparr>)
       = Some Openpyxl
   \<and> \<not> list_all (\<lambda>sh. map_of no_acquirer_book sh = None) expected_sheets
   \<and> (\<exists>evs. script_main first_sheet_no_filter \<lparr>dataframes = None\<rparr>
               (Some \<lparr>upload_name = ''Q3.XLSX'', upload_book = Some no_acquirer_book\<rparr>)
             = (\<lparr>dataframes = Some (found no_acquirer_book expected_sheets)\<rparr>,
                Open_workbook ''Q3.XLSX'' # evs, False)
           \<and> warned_sheets evs = [''Acquirer'']
           \<and> Success_loaded 7 \<in> set evs
           \<and> Error_no_valid_sheets \<notin> set evs)
   \<and> length (found no_acquirer_book expected_sheets) = 7
   \<and> list_all (\<lambda>sh. map_of other_book sh = None) expected_sheets
   \<and> script_main first_sheet_no_filter \<lparr>dataframes = None\<rparr>
        (Some \<lparr>upload_name = ''old.xls'', upload_book = Some other_book\<rparr>)
      = (\<lparr>dataframes = Some []\<rparr>,
         Open_workbook ''old.xls'' # map Warning_sheet_not_found expected_sheets
           @ [Error_no_valid_sheets], False)"
proof -
  let ?f = "\<lparr>upload_name = ''Q3.XLSX'', upload_book = Some no_acquirer_book\<rparr>"
  let ?g = "\<lparr>upload_name = ''old.xls'', upload_book = Some other_book\<rparr>"
  let ?s = "\<lparr>dataframes = None\<rparr>"
  have a: "dataframes ?s = None" by simp
  have b: "engine_of (upload_name ?f) = Some Openpyxl" by code_simp
  have b': "engine_of (upload_name ?g) = Some Xlrd" by code_simp
  have c: "upload_book ?f = Some no_acquirer_book" by simp
  have c': "upload_book ?g = Some other_book" by simp
  have m: "filter (\<lambda>sh. map_of no_acquirer_book sh = None) expected_sheets = [''Acquirer'']"
    by (simp add: no_acquirer_book_def expected_sheets_def)
  have n: "length (found no_acquirer_book expected_sheets) = 7"
    by (simp add: no_acquirer_book_def expected_sheets_def found_def)
  have p: "\<not> list_all (\<lambda>sh. map_of no_acquirer_book sh = None) expected_sheets"
    by (simp add: no_acquirer_book_def expected_sheets_def)
  have z: "list_all (\<lambda>sh. map_of other_book sh = None) expected_sheets"
    by (simp add: other_book_def expected_sheets_def)
  have e: "found other_book expected_sheets = []"
    by (simp add: other_book_def expected_sheets_def found_def)
  from missing_sheets_warned [OF a b c, of first_sheet_no_filter] obtain evs where
    o: "script_main first_sheet_no_filter ?s (Some ?f)
          = (?s\<lparr>dataframes := Some (found no_acquirer_book expected_sheets)\<rparr>,
             Open_workbook (upload_name ?f) # evs, False)"
       "warned_sheets evs
          = filter (\<lambda>sh. map_of no_acquirer_book sh = None) expected_sheets"
       "\<not> list_all (\<lambda>sh. map_of no_acquirer_book sh = None) expected_sheets \<longrightarrow>
           found no_acquirer_book expected_sheets \<noteq> []
         \<and> Success_loaded (length (found no_acquirer_book expected_sheets)) \<in> set evs
         \<and> Error_no_valid_sheets \<notin> set evs"
    by blast
  from o(2) m have o2: "warned_sheets evs = [''Acquirer'']" by (rule trans)
  from o(3) p have "Success_loaded (length (found no_acquirer_book expected_sheets)) \<in> set evs"
    and o4: "Error_no_valid_sheets \<notin> set evs" by blast+
  then have o3: "Success_loaded 7 \<in> set evs" by (simp only: n)
  from o(1) have o1: "script_main first_sheet_no_filter ?s (Some ?f)
          = (\<lparr>dataframes = Some (found no_acquirer_book expected_sheets)\<rparr>,
             Open_workbook ''Q3.XLSX'' # evs, False)"
    by simp
  from o1 o2 o3 o4
  have 1: "\<exists>evs. script_main first_sheet_no_filter ?s (Some ?f)
             = (\<lparr>dataframes = Some (found no_acquirer_book expected_sheets)\<rparr>,
                Open_workbook ''Q3.XLSX'' # evs, False)
           \<and> warned_sheets evs = [''Acquirer'']
           \<and> Success_loaded 7 \<in> set evs
           \<and> Error_no_valid_sheets \<notin> set evs"
    by blast
  from missing_sheets_warned [OF a b' c', of first_sheet_no_filter] z e
  have 2: "script_main first_sheet_no_filter ?s (Some ?g)
      = (\<lparr>dataframes = Some []\<rparr>,
         Open_workbook ''old.xls'' # map Warning_sheet_not_found expected_sheets
           @ [Error_no_valid_sheets], False)"
    by auto
  from a b p 1 n z 2 show ?thesis by blast
qed

text \<open>
  C8, as the code has it. Every run with an uploaded file of a supported extension opens
  the workbook again (\<open>pd.ExcelFile\<close>, line 31), but the sheets are read into the store
  only on a run that finds no \<open>dataframes\<close> key. While the key is there a run leaves the
  store as it is and reads no sheet, whatever the widgets return and whatever file is
  uploaded. The reset button deletes the key and asks for a rerun, which fills the store
  from the file uploaded then; nothing else deletes the key. A run without the key and
  with a readable workbook reads each expected sheet the workbook has, once.
\<close>

theorem store_populated_while_absent:
  "(dataframes s = Some d \<longrightarrow>
      (\<exists>evs stopped. script_main w s up = (s, evs, stopped) \<and> read_sheets evs = []))
   \<and> (dataframes s = Some d \<and> engine_of (upload_name f) = Some engine \<and> upload_book f = Some wb \<longrightarrow>
      (\<exists>evs. script_main w s (Some f) = (s, Open_workbook (upload_name f) # evs, False)
           \<and> read_sheets evs = []))
   \<and> (dataframes s = Some d \<and> dataframes (fst (script w s up)) = None \<longrightarrow> reset_button w)
   \<and> (reset_button w \<and> engine_of (upload_name f) = Some engine \<longrightarrow>
        dataframes (fst (script w s (Some f))) = None \<and> snd (snd (script w s (Some f))))
   \<and> (reset_button w \<longrightarrow>
        dataframes (fst (script w s None)) = None \<and> snd (snd (script w s None)))
   \<and> (reset_button w \<and> engine_of (upload_name f) = Some engine \<and> upload_book f = Some wb \<longrightarrow>
        dataframes (fst (interaction w s (Some f))) = Some (found wb expected_sheets))
   \<and> (dataframes s = None \<and> engine_of (upload_name f) = Some engine \<and> upload_book f = Some wb \<longrightarrow>
      (\<exists>evs. script_main w s (Some f)
                = (s\<lparr>dataframes := Some (found wb expected_sheets)\<rparr>, evs, False)
           \<and> read_sheets evs = filter (\<lambda>sh. map_of wb sh \<noteq> None) expected_sheets))"
proof (intro conjI impI)
  assume "dataframes s = Some d"
  then show "\<exists>evs stopped. script_main w s up = (s, evs, stopped) \<and> read_sheets evs = []"
    by (rule script_main_present)
next
  assume "dataframes s = Some d \<and> engine_of (upload_name f) = Some engine \<and> upload_book f = Some wb"
  then show "\<exists>evs. script_main w s (Some f) = (s, Open_workbook (upload_name f) # evs, False)
           \<and> read_sheets evs = []"
    using script_main_present_open [of s d f engine wb w] by blast
next
  assume a: "dataframes s = Some d \<and> dataframes (fst (script w s up)) = None"
  then obtain evs stopped where "script_main w s up = (s, evs, stopped)"
    using script_main_present [of s d w up] by blast
  with a show "reset_button w"
    by (auto simp: script_def split: if_splits)
next
  assume "reset_button w \<and> engine_of (upload_name f) = Some engine"
  then show "dataframes (fst (script w s (Some f))) = None"
    using script_reset [of w f engine s] by simp
next
  assume "reset_button w \<and> engine_of (upload_name f) = Some engine"
  then show "snd (snd (script w s (Some f)))"
    using script_reset [of w f engine s] by simp
next
  assume "reset_button w"
  then show "dataframes (fst (script w s None)) = None"
    by (simp add: script_reset_no_file)
next
  assume "reset_button w"
  then show "snd (snd (script w s None))"
    by (simp add: script_reset_no_file)
next
  assume "reset_button w \<and> engine_of (upload_name f) = Some engine \<and> upload_book f = Some wb"
  then show "dataframes (fst (interaction w s (Some f))) = Some (found wb expected_sheets)"
    using interaction_reset [of w f engine wb s] by blast
next
  assume a: "dataframes s = None \<and> engine_of (upload_name f) = Some engine \<and> upload_book f = Some wb"
  then have a1: "dataframes s = None" and a2: "engine_of (upload_name f) = Some engine"
    and a3: "upload_book f = Some wb" by simp_all
  from script_main_load [OF a1 a2 a3, of w] obtain devs err where
    d: "display w (found wb expected_sheets) = (devs, err)" and
    m: "script_main w s (Some f) =
        (s\<lparr>dataframes := Some (found wb expected_sheets)\<rparr>,
         Open_workbook (upload_name f) # snd (load_sheets (upload_name f) wb expected_sheets [])
           @ devs @ (case err of None \<Rightarrow> [] | Some e \<Rightarrow> [Error_reading e]),
         False)"
    by blast
  have q: "read_sheets devs = []"
    using display_quiet [of w "found wb expected_sheets"] d by simp
  have "read_sheets (Open_workbook (upload_name f) # snd (load_sheets (upload_name f) wb expected_sheets [])
           @ devs @ (case err of None \<Rightarrow> [] | Some e \<Rightarrow> [Error_reading e]))
        = filter (\<lambda>sh. map_of wb sh \<noteq> None) expected_sheets"
    by (cases err) (simp_all add: read_sheets_append read_load q)
  with m show "\<exists>evs. script_main w s (Some f)
                = (s\<lparr>dataframes := Some (found wb expected_sheets)\<rparr>, evs, False)
           \<and> read_sheets evs = filter (\<lambda>sh. map_of wb sh \<noteq> None) expected_sheets"
    by blast
qed

theorem store_populated_while_absent_witness:
  "dataframes \<lparr>dataframes = Some [(''Region'', region_a)]\<rparr> = Some [(''Region'', region_a)]
   \<and> engine_of (upload_name file_b) = Some Openpyxl
   \<and> upload_book file_b = Some [(''Region'', region_b)]
   \<and> (\<exists>evs.
         script_main exclude_first_value \<lparr>dataframes = Some [(''Region'', region_a)]\<rparr>
           (Some file_b)
         = (\<lparr>dataframes = Some [(''Region'', region_a)]\<rparr>, Open_workbook ''b.xlsx'' # evs, False)
       \<and> read_sheets evs = [])
   \<and> reset_button reset_clicked
   \<and> dataframes (fst (script reset_clicked \<lparr>dataframes = Some [(''Region'', region_a)]\<rparr>
        (Some file_b))) = None
   \<and> snd (snd (script reset_clicked \<lparr>dataframes = Some [(''Region'', region_a)]\<rparr>
        (Some file_b)))
   \<and> dataframes (fst (script reset_clicked \<lparr>dataframes = Some [(''Region'', region_a)]\<rparr>
        None)) = None
   \<and> dataframes (fst (interaction reset_clicked \<lparr>dataframes = Some [(''Region'', region_a)]\<rparr>
        (Some file_b))) = Some [(''Region'', region_b)]
   \<and> dataframes \<lparr>dataframes = None\<rparr> = None
   \<and> engine_of (upload_name file_a) = Some Openpyxl
   \<and> upload_book file_a = Some [(''Region'', region_a)]
   \<and> (\<exists>evs. script_main first_sheet_no_filter \<lparr>dataframes = None\<rparr> (Some file_a)
           = (\<lparr>dataframes = Some [(''Region'', region_a)]\<rparr>, evs, False)
         \<and> read_sheets evs = [''Region''])"
proof -
  let ?s1 = "\<lparr>dataframes = Some [(''Region'', region_a)]\<rparr>"
  let ?s0 = "\<lparr>dataframes = None\<rparr>"
  have a: "dataframes ?s1 = Some [(''Region'', region_a)]" by simp
  have b: "dataframes ?s0 = None" by simp
  have c: "engine_of (upload_name file_a) = Some Openpyxl" by code_simp
  have c': "engine_of (upload_name file_b) = Some Openpyxl" by code_simp
  have d: "upload_book file_a = Some [(''Region'', region_a)]" by (simp add: file_a_def)
  have d': "upload_book file_b = Some [(''Region'', region_b)]" by (simp add: file_b_def)
  have nm: "upload_name file_b = ''b.xlsx''" by (simp add: file_b_def)
  have k: "reset_button reset_clicked" by (simp add: reset_clicked_def)
  have f: "found [(''Region'', region_a)] expected_sheets = [(''Region'', region_a)]"
    by (simp add: found_def expected_sheets_def)
  have f': "found [(''Region'', region_b)] expected_sheets = [(''Region'', region_b)]"
    by (simp add: found_def expected_sheets_def)
  have r: "filter (\<lambda>sh. map_of [(''Region'', region_a)] sh \<noteq> None) expected_sheets = [''Region'']"
    by (simp add: expected_sheets_def)
  from store_populated_while_absent
    [of ?s1 "[(''Region'', region_a)]" exclude_first_value _ file_b Openpyxl
       "[(''Region'', region_b)]"] a c' d'
  have "\<exists>evs. script_main exclude_first_value ?s1 (Some file_b)
           = (?s1, Open_workbook (upload_name file_b) # evs, False)
       \<and> read_sheets evs = []"
    by blast
  then have 1: "\<exists>evs. script_main exclude_first_value ?s1 (Some file_b)
           = (?s1, Open_workbook ''b.xlsx'' # evs, False)
       \<and> read_sheets evs = []"
    by (simp only: nm)
  from store_populated_while_absent
    [of ?s1 "[(''Region'', region_a)]" reset_clicked "Some file_b" file_b Openpyxl
       "[(''Region'', region_b)]"] k c' d'
  have 2: "dataframes (fst (script reset_clicked ?s1 (Some file_b))) = None"
    and 3: "snd (snd (script reset_clicked ?s1 (Some file_b)))"
    and 4: "dataframes (fst (script reset_clicked ?s1 None)) = None"
    and "dataframes (fst (interaction reset_clicked ?s1 (Some file_b)))
           = Some (found [(''Region'', region_b)] expected_sheets)"
    by blast+
  then have 5: "dataframes (fst (interaction reset_clicked ?s1 (Some file_b)))
           = Some [(''Region'', region_b)]"
    by (simp only: f')
  from store_populated_while_absent
    [of ?s0 _ first_sheet_no_filter _ file_a Openpyxl "[(''Region'', region_a)]"] b c d
  have "\<exists>evs. script_main first_sheet_no_filter ?s0 (Some file_a)
           = (?s0\<lparr>dataframes := Some (found [(''Region'', region_a)] expected_sheets)\<rparr>, evs, False)
         \<and> read_sheets evs
           = filter (\<lambda>sh. map_of [(''Region'', region_a)] sh \<noteq> None) expected_sheets"
    by blast
  then obtain evs where
    e1: "script_main first_sheet_no_filter ?s0 (Some file_a)
           = (?s0\<lparr>dataframes := Some (found [(''Region'', region_a)] expected_sheets)\<rparr>, evs, False)"
    and e2: "read_sheets evs
           = filter (\<lambda>sh. map_of [(''Region'', region_a)] sh \<noteq> None) expected_sheets"
    by blast
  from e2 r have e3: "read_sheets evs = [''Region'']" by (rule trans)
  have eq: "?s0\<lparr>dataframes := Some (found [(''Region'', region_a)] expected_sheets)\<rparr> = ?s1"
    by (simp add: f)
  from e1 have "script_main first_sheet_no_filter ?s0 (Some file_a) = (?s1, evs, False)"
    by (simp only: eq)
  with e3 have 6: "\<exists>evs. script_main first_sheet_no_filter ?s0 (Some file_a) = (?s1, evs, False)
         \<and> read_sheets evs = [''Region'']"
    by blast
  from a c' d' 1 k 2 3 4 5 b c d 6 show ?thesis by blast
qed

text \<open>
  C8 as stated fails twice. After the first file has been loaded, a run on which only the
  filter changes opens the workbook again (it is parsed once more, though no sheet is
  read); and a run with another file uploaded opens that file but reads none of its
  sheets, so the store still holds the table of the first file.
\<close>

theorem second_upload_counterexample:
  "interaction first_sheet_no_filter \<lparr>dataframes = None\<rparr> (Some file_a)
     = (\<lparr>dataframes = Some [(''Region'', region_a)]\<rparr>,
        [Open_workbook ''a.xlsx'', Read_sheet ''a.xlsx'' ''Region'',
         Warning_sheet_not_found ''Issuer'', Warning_sheet_not_found ''Merchant'',
         Warning_sheet_not_found ''Acquirer'', Warning_sheet_not_found ''Issuer-Merchant'',
         Warning_sheet_not_found ''Issuer-Acquirer'', Warning_sheet_not_found ''Acquirer-Merchant'',
         Warning_sheet_not_found ''Issuer-Acquirer-Merchant'',
         Success_loaded 1, Show_sheet ''Region'' region_a 1])
   \<and> interaction exclude_first_value \<lparr>dataframes = Some [(''Region'', region_a)]\<rparr> (Some file_a)
     = (\<lparr>dataframes = Some [(''Region'', region_a)]\<rparr>,
        [Open_workbook ''a.xlsx'', Success_loaded 1,
         Show_sheet ''Region'' \<lparr>columns = [''Issuer region name''], rows = []\<rparr> 1])
   \<and> interaction first_sheet_no_filter \<lparr>dataframes = Some [(''Region'', region_a)]\<rparr> (Some file_b)
     = (\<lparr>dataframes = Some [(''Region'', region_a)]\<rparr>,
        [Open_workbook ''b.xlsx'', Success_loaded 1, Show_sheet ''Region'' region_a 1])"
  by code_simp

section \<open>Filtering does not change the loaded table\<close>

lemma filter_loop_frame:
  assumes "a < length h"
  shows "\<exists>h' a'. filter_loop ex fs h a = Inr (h', a')
           \<and> take (length h) h' = h \<and> a' < length h' \<and> (a' = a \<or> length h \<le> a')
           \<and> filtered_df ex fs (h ! a) = Inr (h' ! a')"
  using assms
proof (induction fs arbitrary: h a)
  case Nil
  then show ?case by simp
next
  case (Cons f fs)
  obtain c vs where f: "f = (c, vs)" by (cases f)
  show ?case
  proof (cases "vs \<noteq> [] \<and> c \<in> set (columns (h ! a))")
    case False
    then have "filter_loop ex (f # fs) h a = filter_loop ex fs h a"
      and "filtered_df ex (f # fs) (h ! a) = filtered_df ex fs (h ! a)"
      by (auto simp: f)
    with Cons.IH [OF Cons.prems] show ?thesis
      by simp
  next
    case True
    let ?series = "map (\<lambda>r. cell_at r c) (rows (h ! a))"
    let ?new = "getitem_mask (h ! a) (if ex then invert (isin ?series vs) else isin ?series vs)"
    let ?h1 = "h @ [?new]"
    have g: "getitem_col (h ! a) c = Inr ?series"
      using True by (simp add: getitem_col_def)
    have step: "filter_loop ex (f # fs) h a = filter_loop ex fs ?h1 (length h)"
      using True g by (simp add: f new_df_def)
    have pure: "filtered_df ex (f # fs) (h ! a) = filtered_df ex fs ?new"
      using True g by (simp add: f)
    have "length h < length ?h1" by simp
    from Cons.IH [OF this] obtain h' a' where
      r: "filter_loop ex fs ?h1 (length h) = Inr (h', a')"
         "take (length ?h1) h' = ?h1" "a' < length h'"
         "a' = length h \<or> length ?h1 \<le> a'"
         "filtered_df ex fs (?h1 ! length h) = Inr (h' ! a')"
      by blast
    from r(2) have "take (length h) (take (length ?h1) h') = take (length h) ?h1"
      by simp
    then have t: "take (length h) h' = h"
      by (simp add: min_def)
    from r(4) have n: "length h \<le> a'" by auto
    from r(5) have p: "filtered_df ex fs ?new = Inr (h' ! a')" by simp
    from step r(1) t r(3) n pure p show ?thesis
      by auto
  qed
qed

text \<open>
  C9. Computing the filtered view of the table at an address of the heap returns a new
  object that holds the filtered table, and leaves every object that was in the heap as
  it was, the source table among them.
\<close>

theorem source_unchanged:
  assumes "source < length h"
  shows "\<exists>h' a. filtered_view ex fs h source = Inr (h', a)
           \<and> take (length h) h' = h
           \<and> h' ! source = h ! source
           \<and> length h \<le> a \<and> a < length h'
           \<and> filtered_df ex fs (h ! source) = Inr (h' ! a)"
proof -
  let ?h1 = "h @ [h ! source]"
  let ?h2 = "?h1 @ [?h1 ! length h]"
  have v: "filtered_view ex fs h source = filter_loop ex fs ?h2 (length ?h1)"
    by (simp add: filtered_view_def copy_df_def)
  have "length ?h1 < length ?h2" by simp
  from filter_loop_frame [OF this, of ex fs] obtain h' a' where
    r: "filter_loop ex fs ?h2 (length ?h1) = Inr (h', a')"
       "take (length ?h2) h' = ?h2" "a' < length h'"
       "a' = length ?h1 \<or> length ?h2 \<le> a'"
       "filtered_df ex fs (?h2 ! length ?h1) = Inr (h' ! a')"
    by blast
  from r(2) have "take (length h) (take (length ?h2) h') = take (length h) ?h2"
    by simp
  then have t: "take (length h) h' = h"
    by (simp add: min_def)
  have "h' ! source = take (length h) h' ! source"
    using assms by simp
  with t have s: "h' ! source = h ! source" by simp
  from r(4) have n: "length h \<le> a'" by auto
  have "?h2 ! length ?h1 = h ! source"
    by (simp add: nth_append)
  with r(5) have p: "filtered_df ex fs (h ! source) = Inr (h' ! a')" by simp
  from v r(1) t s n r(3) p show ?thesis by auto
qed

theorem source_unchanged_witness:
  "0 < length [issuer_sheet]
   \<and> (\<exists>h' a. filtered_view False [(''Issuer country'', [Str ''US''])] [issuer_sheet] 0
                 = Inr (h', a)
         \<and> h' ! 0 = issuer_sheet \<and> a = 3
         \<and> rows (h' ! a)
             = [[(''Issuer country'', Str ''US''), (''Merchant'', Str ''M1'')],
                [(''Issuer country'', Str ''US''), (''Merchant'', Str ''M2'')]])"
proof -
  have l: "0 < length [issuer_sheet]" by simp
  have v: "filtered_view False [(''Issuer country'', [Str ''US''])] [issuer_sheet] 0
      = Inr ([issuer_sheet, issuer_sheet, issuer_sheet,
              issuer_sheet\<lparr>rows := [[(''Issuer country'', Str ''US''), (''Merchant'', Str ''M1'')],
                [(''Issuer country'', Str ''US''), (''Merchant'', Str ''M2'')]]\<rparr>], 3)"
    by (simp add: filtered_view_def copy_df_def new_df_def issuer_sheet_def getitem_col_def
        getitem_mask_def isin_def cell_at_def)
  from source_unchanged [OF l, of False "[(''Issuer country'', [Str ''US''])]"] v l
  show ?thesis by auto
qed

end
